theory Spec2Isabelle
  imports Complex_Main
begin

section \<open>The world seen by the package-manager runner\<close>

text \<open>
  \<^verbatim>\<open>run_pacman\<close> (lib/pacman.py) talks to the outside through five doors:
  \<^verbatim>\<open>pathlib.Path.exists\<close>, \<^verbatim>\<open>time.time\<close>, \<^verbatim>\<open>time.sleep\<close>, the log functions of
  lib/output.py and \<^verbatim>\<open>exit\<close>.  The two observations are answered by the environment:
  \<open>lock env k\<close> is the answer of the \<open>k\<close>-th existence check of the lock file and
  \<open>clock env k\<close> the reading, in seconds, of the \<open>k\<close>-th call of \<^verbatim>\<open>time.time\<close>.  Nothing is
  assumed about either of them.  Seconds are real numbers; the rounding of Python's
  floats is not modelled.

  Every effect is appended to a chronological trace of events, and the world counts the
  observations made so far.
\<close>

type_synonym path = string

datatype event =
    Exists path bool       \<comment> \<open>\<^verbatim>\<open>Path.exists()\<close> on the path, with its answer\<close>
  | Time real              \<comment> \<open>\<^verbatim>\<open>time.time()\<close>, with its reading\<close>
  | Sleep real             \<comment> \<open>\<^verbatim>\<open>time.sleep(secs)\<close>\<close>
  | Log int string         \<comment> \<open>entry into \<^verbatim>\<open>log\<close>: level and joined message\<close>
  | Write path string      \<comment> \<open>\<^verbatim>\<open>open(path, 'a')\<close> followed by \<^verbatim>\<open>write(text)\<close>\<close>
  | Journal int string     \<comment> \<open>\<^verbatim>\<open>log_adapter.log(level, message)\<close> of the systemd journal\<close>
  | Stdout string          \<comment> \<open>\<^verbatim>\<open>sys.stdout.write(text)\<close>\<close>

record env =
  lock :: "nat \<Rightarrow> bool"
  clock :: "nat \<Rightarrow> real"

record world =
  checks :: nat
  reads :: nat
  trace :: "event list"

definition init_world :: world where
  "init_world = \<lparr>checks = 0, reads = 0, trace = []\<rparr>"

definition emit :: "event \<Rightarrow> world \<Rightarrow> world" where
  "emit e w = w\<lparr>trace := trace w @ [e]\<rparr>"

definition path_exists :: "env \<Rightarrow> path \<Rightarrow> world \<Rightarrow> bool \<times> world" where
  "path_exists en p w =
     (lock en (checks w), emit (Exists p (lock en (checks w))) (w\<lparr>checks := Suc (checks w)\<rparr>))"

definition time_time :: "env \<Rightarrow> world \<Rightarrow> real \<times> world" where
  "time_time en w =
     (clock en (reads w), emit (Time (clock en (reads w))) (w\<lparr>reads := Suc (reads w)\<rparr>))"

definition time_sleep :: "real \<Rightarrow> world \<Rightarrow> world" where
  "time_sleep secs w = emit (Sleep secs) w"

text \<open>
  A Python call ends in one of three ways: it returns a value, it raises
  \<^verbatim>\<open>SystemExit\<close> (what \<^verbatim>\<open>exit(code)\<close> does), or it raises another exception.
\<close>

datatype py_error = KeyError string

datatype 'a outcome = Returned 'a | SystemExit int | Raised py_error

section \<open>lib/output.py\<close>

text \<open>
  What the module reads from outside the sources at hand is a parameter: the entries
  of the \<^verbatim>\<open>storage\<close> dictionary, the terminal, whether \<^verbatim>\<open>systemd.journal\<close> can be
  imported, and the translation function \<^verbatim>\<open>_\<close>.  \<open>absolute_logfile\<close> is the value of
  \<^verbatim>\<open>log_dir / filename\<close>, the join of pathlib, taken as given.
\<close>

record config =
  LOG_FILE :: "string option"
  absolute_logfile :: path
  verbose :: bool
  platform :: string
  ANSICON :: bool
  isatty :: bool
  systemd :: bool
  translate :: "string \<Rightarrow> string"

definition logging_DEBUG :: int where "logging_DEBUG = 10"
definition logging_INFO :: int where "logging_INFO = 20"
definition logging_WARN :: int where "logging_WARN = 30"
definition logging_ERROR :: int where "logging_ERROR = 40"

definition ESC :: char where "ESC = CHR 0x1B"
definition NL :: char where "NL = CHR 0x0A"

fun join :: "string \<Rightarrow> string list \<Rightarrow> string" where
  "join sep [] = []"
| "join sep [x] = x"
| "join sep (x # y # ys) = x @ sep @ join sep (y # ys)"

definition supports_color :: "config \<Rightarrow> bool" where
  "supports_color cfg =
     (let supported_platform = (platform cfg \<noteq> ''win32'' \<or> ANSICON cfg);
          is_a_tty = isatty cfg
      in supported_platform \<and> is_a_tty)"

datatype Font = bold | italic | underscore | blink | reverse | conceal

fun Font_value :: "Font \<Rightarrow> string" where
  "Font_value bold = ''1''"
| "Font_value italic = ''3''"
| "Font_value underscore = ''4''"
| "Font_value blink = ''5''"
| "Font_value reverse = ''7''"
| "Font_value conceal = ''8''"

definition colors :: "(string \<times> string) list" where
  "colors =
     [(''black'', ''0''), (''red'', ''1''), (''green'', ''2''), (''yellow'', ''3''),
      (''blue'', ''4''), (''magenta'', ''5''), (''cyan'', ''6''), (''white'', ''7''),
      (''teal'', ''8;5;109''), (''orange'', ''8;5;208''), (''darkorange'', ''8;5;202''),
      (''gray'', ''8;5;246''), (''grey'', ''8;5;246''), (''darkgray'', ''8;5;240''),
      (''lightgray'', ''8;5;256'')]"

definition foreground :: "string \<rightharpoonup> string" where
  "foreground = map_of (map (\<lambda>(key, c). (key, ''3'' @ c)) colors)"

definition background :: "string \<rightharpoonup> string" where
  "background = map_of (map (\<lambda>(key, c). (key, ''4'' @ c)) colors)"

definition stylize_output ::
  "string \<Rightarrow> string \<Rightarrow> string option \<Rightarrow> bool \<Rightarrow> Font list \<Rightarrow> py_error + string" where
  "stylize_output text fg bg reset font =
     (if text = [] \<and> reset then Inr (ESC # ''[0m'')
      else case foreground fg of
        None \<Rightarrow> Inl (KeyError fg)
      | Some f \<Rightarrow>
          (case (case bg of
                   None \<Rightarrow> Inr []
                 | Some b \<Rightarrow>
                     if b = [] then Inr []
                     else (case background b of
                             None \<Rightarrow> Inl (KeyError b)
                           | Some c \<Rightarrow> Inr [c])) of
             Inl e \<Rightarrow> Inl e
           | Inr bs \<Rightarrow>
               Inr (ESC # ''['' @ join '';'' ([f] @ bs @ map Font_value font) @ ''m''
                    @ text @ ESC # ''[0m'')))"

definition Journald_log :: "config \<Rightarrow> string \<Rightarrow> int \<Rightarrow> world \<Rightarrow> world" where
  "Journald_log cfg message level w =
     (if \<not> systemd cfg then w else emit (Journal level message) w)"

definition log ::
  "config \<Rightarrow> string list \<Rightarrow> int \<Rightarrow> string \<Rightarrow> string option \<Rightarrow> bool \<Rightarrow> Font list
     \<Rightarrow> world \<Rightarrow> py_error + world" where
  "log cfg msgs level fg bg reset font w =
     (let orig_string = join '' '' msgs;
          w0 = emit (Log level orig_string) w
      in case (if supports_color cfg then stylize_output orig_string fg bg reset font
               else Inr orig_string) of
           Inl e \<Rightarrow> Inl e
         | Inr text \<Rightarrow>
             (let w1 = (case LOG_FILE cfg of
                          None \<Rightarrow> w0
                        | Some filename \<Rightarrow>
                            if filename = [] then w0
                            else emit (Write (absolute_logfile cfg) (orig_string @ [NL])) w0);
                  w2 = Journald_log cfg text level w1;
                  w3 = (if level \<noteq> logging_DEBUG \<or> verbose cfg
                        then emit (Stdout (text @ [NL])) w2 else w2)
              in Inr w3))"

definition error :: "config \<Rightarrow> string list \<Rightarrow> world \<Rightarrow> py_error + world" where
  "error cfg msgs w = log cfg msgs logging_ERROR ''red'' None False [] w"

definition warn :: "config \<Rightarrow> string list \<Rightarrow> world \<Rightarrow> py_error + world" where
  "warn cfg msgs w = log cfg msgs logging_WARN ''yellow'' None False [] w"

section \<open>lib/pacman.py\<close>

text \<open>
  Modelled from the spec: the class \<^verbatim>\<open>SysCommand\<close> of lib/general.py is not among the
  sources at hand.  The spec describes what \<^verbatim>\<open>run_pacman\<close> returns as a handle
  representing the external command, name and arguments, to be executed by the caller's
  process-execution abstraction; a handle is therefore the command line it was built from.
\<close>

datatype SysCommand = SysCommand string

definition pacman_db_lock :: path where
  "pacman_db_lock = ''/var/lib/pacman/db.lck''"

definition warn_msg :: string where
  "warn_msg = ''Pacman is already running, waiting maximum 10 minutes for it to terminate.''"

definition error_msg :: string where
  "error_msg = ''Pre-existing pacman lock never exited. Please clean up any existing pacman sessions before using archinstall.''"

text \<open>
  The \<^verbatim>\<open>while\<close> loop of lines 24 to 29.  The first argument bounds the number of
  evaluations of the loop condition; when it is used up the loop is still waiting and
  the result is \<open>None\<close>, together with the world reached so far.
\<close>

fun wait_loop ::
  "nat \<Rightarrow> config \<Rightarrow> env \<Rightarrow> real \<Rightarrow> world \<Rightarrow> unit outcome option \<times> world" where
  "wait_loop 0 cfg en started w = (None, w)"
| "wait_loop (Suc n) cfg en started w =
     (case path_exists en pacman_db_lock w of
        (False, w1) \<Rightarrow> (Some (Returned ()), w1)
      | (True, w1) \<Rightarrow>
          (let w2 = time_sleep 0.25 w1 in
           case time_time en w2 of
             (now, w3) \<Rightarrow>
               if now - started > 60 * 10 then
                 (case error cfg [translate cfg error_msg] w3 of
                    Inl e \<Rightarrow> (Some (Raised e), w3)
                  | Inr w4 \<Rightarrow> (Some (SystemExit 1), w4))
               else wait_loop n cfg en started w3))"

definition run_pacman ::
  "nat \<Rightarrow> config \<Rightarrow> env \<Rightarrow> string \<Rightarrow> string \<Rightarrow> world \<Rightarrow> SysCommand outcome option \<times> world" where
  "run_pacman n cfg en args default_cmd w =
     (case path_exists en pacman_db_lock w of
        (locked, w1) \<Rightarrow>
          (case (if locked then warn cfg [translate cfg warn_msg] w1 else Inr w1) of
             Inl e \<Rightarrow> (Some (Raised e), w1)
           | Inr w2 \<Rightarrow>
               (case time_time en w2 of
                  (started, w3) \<Rightarrow>
                    (case wait_loop n cfg en started w3 of
                       (None, w4) \<Rightarrow> (None, w4)
                     | (Some (Returned u), w4) \<Rightarrow>
                         (Some (Returned (SysCommand (default_cmd @ '' '' @ args))), w4)
                     | (Some (SystemExit code), w4) \<Rightarrow> (Some (SystemExit code), w4)
                     | (Some (Raised e), w4) \<Rightarrow> (Some (Raised e), w4)))))"

section \<open>Reading a trace\<close>

text \<open>
  The events a call adds to the trace, and the tests that pick out of them the
  existence checks, the sleeps, the clock readings, the file writes and the messages
  of a given level.
\<close>

definition new_events :: "world \<Rightarrow> world \<Rightarrow> event list" where
  "new_events w w' = drop (length (trace w)) (trace w')"

fun is_exists :: "event \<Rightarrow> bool" where
  "is_exists (Exists p b) = True"
| "is_exists e = False"

fun is_sleep :: "event \<Rightarrow> bool" where
  "is_sleep (Sleep d) = True"
| "is_sleep e = False"

fun is_time :: "event \<Rightarrow> bool" where
  "is_time (Time t) = True"
| "is_time e = False"


fun is_log_at :: "int \<Rightarrow> event \<Rightarrow> bool" where
  "is_log_at level (Log l t) = (l = level)"
| "is_log_at level e = False"

text \<open>An event is output when it belongs to the delivery of a message.\<close>

fun is_output :: "event \<Rightarrow> bool" where
  "is_output (Log l t) = True"
| "is_output (Write p t) = True"
| "is_output (Journal l t) = True"
| "is_output (Stdout t) = True"
| "is_output e = False"

definition warnings :: "event list \<Rightarrow> event list" where
  "warnings evs = filter (is_log_at logging_WARN) evs"

definition errors :: "event list \<Rightarrow> event list" where
  "errors evs = filter (is_log_at logging_ERROR) evs"

text \<open>The events of the loop: what follows the first clock reading, which is \<^verbatim>\<open>started\<close>.\<close>

definition loop_events :: "event list \<Rightarrow> event list" where
  "loop_events evs = tl (dropWhile (\<lambda>e. \<not> is_time e) evs)"

text \<open>
  A sequence of checks and sleeps is paced when each check but the last is followed by
  one sleep of a quarter of a second and that sleep by the next check or by nothing.
\<close>

fun paced :: "event list \<Rightarrow> bool" where
  "paced [] = True"
| "paced [Exists p b] = True"
| "paced (Exists p b # Sleep d # rest) = (d = 0.25 \<and> paced rest)"
| "paced evs = False"

section \<open>Sample worlds\<close>

definition cfg_plain :: config where
  "cfg_plain = \<lparr>LOG_FILE = None, absolute_logfile = ''install.log'', verbose = False,
     platform = ''linux'', ANSICON = False, isatty = False, systemd = False,
     translate = (\<lambda>s. s)\<rparr>"

definition cfg_logfile :: config where
  "cfg_logfile = \<lparr>LOG_FILE = Some ''install.log'',
     absolute_logfile = ''/var/log/archinstall/install.log'', verbose = False,
     platform = ''linux'', ANSICON = False, isatty = True, systemd = True,
     translate = (\<lambda>s. s)\<rparr>"

text \<open>The lock file is never there; the clock advances by the sleeps alone.\<close>

definition env_free :: env where
  "env_free = \<lparr>lock = (\<lambda>k. False), clock = (\<lambda>k. real k / 4)\<rparr>"

text \<open>The lock file is there at the first two checks and gone at the third.\<close>

definition env_brief :: env where
  "env_brief = \<lparr>lock = (\<lambda>k. k < 2), clock = (\<lambda>k. real k / 4)\<rparr>"

text \<open>The lock file appears between the first check and the second, and goes away.\<close>

definition env_late :: env where
  "env_late = \<lparr>lock = (\<lambda>k. k = 1), clock = (\<lambda>k. real k / 4)\<rparr>"

text \<open>The lock file stays; the clock advances by the sleeps alone.\<close>

definition env_stuck :: env where
  "env_stuck = \<lparr>lock = (\<lambda>k. True), clock = (\<lambda>k. real k / 4)\<rparr>"


text \<open>The lock file appears after the first check and stays; the first sleep lasts eleven minutes.\<close>

definition env_late_slow :: env where
  "env_late_slow = \<lparr>lock = (\<lambda>k. 0 < k), clock = (\<lambda>k. if k = 0 then 0 else 660)\<rparr>"

section \<open>One message and one round of the loop, in closed form\<close>

text \<open>
  The events that one call of \<open>log\<close> adds, given the text as it is after colouring, and
  the text that \<open>warn\<close> and \<open>error\<close> obtain for their colour codes.  The lemmas
  \<open>warn_eq\<close> and \<open>error_eq\<close> below show that this is what the functions do.
\<close>

definition styled :: "config \<Rightarrow> string \<Rightarrow> string \<Rightarrow> string" where
  "styled cfg code text =
     (if supports_color cfg then ESC # ''['' @ code @ ''m'' @ text @ ESC # ''[0m'' else text)"

definition log_events :: "config \<Rightarrow> int \<Rightarrow> string \<Rightarrow> string \<Rightarrow> event list" where
  "log_events cfg level orig text =
     [Log level orig]
     @ (case LOG_FILE cfg of
          None \<Rightarrow> []
        | Some filename \<Rightarrow>
            if filename = [] then [] else [Write (absolute_logfile cfg) (orig @ [NL])])
     @ (if systemd cfg then [Journal level text] else [])
     @ (if level \<noteq> logging_DEBUG \<or> verbose cfg then [Stdout (text @ [NL])] else [])"

definition warn_events :: "config \<Rightarrow> event list" where
  "warn_events cfg =
     log_events cfg logging_WARN (translate cfg warn_msg) (styled cfg ''33'' (translate cfg warn_msg))"

definition error_events :: "config \<Rightarrow> event list" where
  "error_events cfg =
     log_events cfg logging_ERROR (translate cfg error_msg) (styled cfg ''31'' (translate cfg error_msg))"

text \<open>One round of the loop with the lock file present: the check, the sleep, the reading.\<close>

definition round_events :: "env \<Rightarrow> world \<Rightarrow> event list" where
  "round_events en w = [Exists pacman_db_lock True, Sleep 0.25, Time (clock en (reads w))]"

definition next_round :: "env \<Rightarrow> world \<Rightarrow> world" where
  "next_round en w =
     w\<lparr>checks := Suc (checks w), reads := Suc (reads w), trace := trace w @ round_events en w\<rparr>"

text \<open>What \<open>run_pacman\<close> does before the loop: the first check, the warning, the start time.\<close>

definition start_events :: "config \<Rightarrow> env \<Rightarrow> world \<Rightarrow> event list" where
  "start_events cfg en w =
     Exists pacman_db_lock (lock en (checks w))
     # (if lock en (checks w) then warn_events cfg else [])
     @ [Time (clock en (reads w))]"

definition start_world :: "config \<Rightarrow> env \<Rightarrow> world \<Rightarrow> world" where
  "start_world cfg en w =
     w\<lparr>checks := Suc (checks w), reads := Suc (reads w),
       trace := trace w @ start_events cfg en w\<rparr>"

section \<open>The result and the events of a call\<close>

definition result ::
  "nat \<Rightarrow> config \<Rightarrow> env \<Rightarrow> string \<Rightarrow> string \<Rightarrow> world \<Rightarrow> SysCommand outcome option" where
  "result n cfg en args default_cmd w = fst (run_pacman n cfg en args default_cmd w)"

definition final :: "nat \<Rightarrow> config \<Rightarrow> env \<Rightarrow> string \<Rightarrow> string \<Rightarrow> world \<Rightarrow> world" where
  "final n cfg en args default_cmd w = snd (run_pacman n cfg en args default_cmd w)"

definition events :: "nat \<Rightarrow> config \<Rightarrow> env \<Rightarrow> string \<Rightarrow> string \<Rightarrow> world \<Rightarrow> event list" where
  "events n cfg en args default_cmd w = new_events w (final n cfg en args default_cmd w)"




section \<open>The log functions and the loop, step by step\<close>

lemma foreground_yellow: "foreground ''yellow'' = Some ''33''"
  by (simp add: foreground_def colors_def)

lemma foreground_red: "foreground ''red'' = Some ''31''"
  by (simp add: foreground_def colors_def)

lemma log_eq:
  assumes "foreground fg = Some code"
  shows "log cfg [m] level fg None False [] w =
         Inr (w\<lparr>trace := trace w @ log_events cfg level m (styled cfg code m)\<rparr>)"
  using assms
  by (simp add: log_def Let_def stylize_output_def styled_def log_events_def emit_def
      Journald_log_def split: option.splits)

lemma warn_eq:
  "warn cfg [translate cfg warn_msg] w = Inr (w\<lparr>trace := trace w @ warn_events cfg\<rparr>)"
  by (simp add: warn_def warn_events_def log_eq [OF foreground_yellow])

lemma error_eq:
  "error cfg [translate cfg error_msg] w = Inr (w\<lparr>trace := trace w @ error_events cfg\<rparr>)"
  by (simp add: error_def error_events_def log_eq [OF foreground_red])

lemma wait_loop_free:
  assumes "\<not> lock en (checks w)"
  shows "wait_loop (Suc n) cfg en started w =
         (Some (Returned ()),
          w\<lparr>checks := Suc (checks w), trace := trace w @ [Exists pacman_db_lock False]\<rparr>)"
  using assms by (simp add: path_exists_def emit_def)

lemma wait_loop_timeout:
  assumes "lock en (checks w)" and "clock en (reads w) - started > 600"
  shows "wait_loop (Suc n) cfg en started w =
         (Some (SystemExit 1),
          (next_round en w)\<lparr>trace := trace (next_round en w) @ error_events cfg\<rparr>)"
  using assms
  by (simp add: path_exists_def emit_def time_sleep_def time_time_def error_eq
      next_round_def round_events_def)

lemma wait_loop_again:
  assumes "lock en (checks w)" and "\<not> clock en (reads w) - started > 600"
  shows "wait_loop (Suc n) cfg en started w = wait_loop n cfg en started (next_round en w)"
  using assms
  by (simp add: path_exists_def emit_def time_sleep_def time_time_def
      next_round_def round_events_def)

lemma wait_loop_events [consumes 1, case_names fuel free timeout again]:
  assumes run: "wait_loop n cfg en started w = (r, w')"
    and fuel: "\<And>w. P w [] None w"
    and free: "\<And>w. \<not> lock en (checks w) \<Longrightarrow>
        P w [Exists pacman_db_lock False] (Some (Returned ()))
          (w\<lparr>checks := Suc (checks w), trace := trace w @ [Exists pacman_db_lock False]\<rparr>)"
    and timeout: "\<And>w. lock en (checks w) \<Longrightarrow> clock en (reads w) - started > 600 \<Longrightarrow>
        P w (round_events en w @ error_events cfg) (Some (SystemExit 1))
          ((next_round en w)\<lparr>trace := trace (next_round en w) @ error_events cfg\<rparr>)"
    and again: "\<And>w evs r w'. lock en (checks w) \<Longrightarrow> \<not> clock en (reads w) - started > 600 \<Longrightarrow>
        trace w' = trace (next_round en w) @ evs \<Longrightarrow>
        P (next_round en w) evs r w' \<Longrightarrow> P w (round_events en w @ evs) r w'"
  shows "\<exists>evs. trace w' = trace w @ evs \<and> P w evs r w'"
  using run
proof (induction n arbitrary: w)
  case 0
  then show ?case using fuel by simp
next
  case (Suc n)
  show ?case
  proof (cases "lock en (checks w)")
    case False
    with Suc.prems free [OF False] show ?thesis
      by (auto simp: wait_loop_free simp del: wait_loop.simps)
  next
    case True
    show ?thesis
    proof (cases "clock en (reads w) - started > 600")
      case late: True
      with Suc.prems True timeout [OF True late] show ?thesis
        by (auto simp: wait_loop_timeout next_round_def simp del: wait_loop.simps)
    next
      case False
      with Suc.prems True have "wait_loop n cfg en started (next_round en w) = (r, w')"
        by (simp add: wait_loop_again del: wait_loop.simps)
      from Suc.IH [OF this] obtain evs
        where evs: "trace w' = trace (next_round en w) @ evs" "P (next_round en w) evs r w'"
        by blast
      from again [OF True False evs] evs(1) show ?thesis
        by (auto simp: next_round_def)
    qed
  qed
qed

lemma run_pacman_eq:
  "run_pacman n cfg en args cmd w =
     (map_option (map_outcome (\<lambda>u. SysCommand (cmd @ '' '' @ args)))
        (fst (wait_loop n cfg en (clock en (reads w)) (start_world cfg en w))),
      snd (wait_loop n cfg en (clock en (reads w)) (start_world cfg en w)))"
proof -
  have w3: "snd (time_time en (w\<lparr>checks := Suc (checks w),
        trace := trace w @ Exists pacman_db_lock (lock en (checks w))
          # (if lock en (checks w) then warn_events cfg else [])\<rparr>)) = start_world cfg en w"
    by (simp add: time_time_def emit_def start_world_def start_events_def)
  show ?thesis
    by (cases "wait_loop n cfg en (clock en (reads w)) (start_world cfg en w)")
      (auto simp: run_pacman_def path_exists_def emit_def warn_eq time_time_def
        start_world_def start_events_def split: option.splits outcome.splits)
qed

subsection \<open>The events of one message\<close>

lemma warnings_warn_events [simp]:
  "warnings (warn_events cfg) = [Log logging_WARN (translate cfg warn_msg)]"
  by (simp add: warnings_def warn_events_def log_events_def split: option.splits)

lemma errors_warn_events [simp]: "errors (warn_events cfg) = []"
  by (simp add: errors_def warn_events_def log_events_def logging_WARN_def logging_ERROR_def
      split: option.splits)

lemma errors_error_events [simp]:
  "errors (error_events cfg) = [Log logging_ERROR (translate cfg error_msg)]"
  by (simp add: errors_def error_events_def log_events_def split: option.splits)

lemma warnings_error_events [simp]: "warnings (error_events cfg) = []"
  by (simp add: warnings_def error_events_def log_events_def logging_WARN_def logging_ERROR_def
      split: option.splits)

lemma log_events_output: "e \<in> set (log_events cfg level orig text) \<Longrightarrow> is_output e"
  by (auto simp: log_events_def split: option.splits if_splits)

lemma output_not_observation:
  "is_output e \<Longrightarrow> \<not> is_exists e \<and> \<not> is_sleep e \<and> \<not> is_time e"
  by (cases e) simp_all


lemma hd_warn_events: "\<exists>rest. warn_events cfg = Log logging_WARN (translate cfg warn_msg) # rest"
  by (simp add: warn_events_def log_events_def)




lemma warnings_append [simp]: "warnings (xs @ ys) = warnings xs @ warnings ys"
  by (simp add: warnings_def)

lemma errors_append [simp]: "errors (xs @ ys) = errors xs @ errors ys"
  by (simp add: errors_def)

lemma warnings_Nil [simp]: "warnings [] = []"
  by (simp add: warnings_def)

lemma errors_Nil [simp]: "errors [] = []"
  by (simp add: errors_def)

lemma warnings_Cons [simp]:
  "warnings (e # es) = (if is_log_at logging_WARN e then e # warnings es else warnings es)"
  by (simp add: warnings_def)

lemma errors_Cons [simp]:
  "errors (e # es) = (if is_log_at logging_ERROR e then e # errors es else errors es)"
  by (simp add: errors_def)

lemma warnings_round [simp]: "warnings (round_events en w) = []"
  by (simp add: warnings_def round_events_def)

lemma errors_round [simp]: "errors (round_events en w) = []"
  by (simp add: errors_def round_events_def)

lemma error_events_no_observation [simp]:
  "filter (\<lambda>e. is_exists e \<or> is_sleep e) (error_events cfg) = []"
  "filter is_sleep (error_events cfg) = []"
  using log_events_output output_not_observation
  by (auto simp: error_events_def filter_empty_conv)

lemma warn_events_no_time: "e \<in> set (warn_events cfg) \<Longrightarrow> \<not> is_time e"
  using log_events_output output_not_observation
  by (auto simp: warn_events_def)

lemma new_events_append: "trace w' = trace w @ evs \<Longrightarrow> new_events w w' = evs"
  by (simp add: new_events_def)

lemma wait_loop_new_events [consumes 1, case_names fuel free timeout again]:
  assumes run: "wait_loop n cfg en started w = (r, w')"
    and fuel: "\<And>w. P w [] None w"
    and free: "\<And>w. \<not> lock en (checks w) \<Longrightarrow>
        P w [Exists pacman_db_lock False] (Some (Returned ()))
          (w\<lparr>checks := Suc (checks w), trace := trace w @ [Exists pacman_db_lock False]\<rparr>)"
    and timeout: "\<And>w. lock en (checks w) \<Longrightarrow> clock en (reads w) - started > 600 \<Longrightarrow>
        P w (round_events en w @ error_events cfg) (Some (SystemExit 1))
          ((next_round en w)\<lparr>trace := trace (next_round en w) @ error_events cfg\<rparr>)"
    and again: "\<And>w evs r w'. lock en (checks w) \<Longrightarrow> \<not> clock en (reads w) - started > 600 \<Longrightarrow>
        trace w' = trace (next_round en w) @ evs \<Longrightarrow>
        P (next_round en w) evs r w' \<Longrightarrow> P w (round_events en w @ evs) r w'"
  shows "P w (new_events w w') r w'"
proof -
  from wait_loop_events [of n cfg en started w r w' P, OF run fuel free timeout again]
  obtain evs where "trace w' = trace w @ evs" "P w evs r w'"
    by blast
  then show ?thesis by (simp add: new_events_append)
qed

lemma wait_loop_trace:
  assumes "wait_loop n cfg en started w = (r, w')"
  shows "trace w' = trace w @ new_events w w'"
proof -
  from wait_loop_events [of n cfg en started w r w' "\<lambda>w evs r w'. True", OF assms]
  obtain evs where "trace w' = trace w @ evs"
    by blast
  then show ?thesis by (simp add: new_events_append)
qed

lemma loop_outcome:
  assumes "wait_loop n cfg en started w = (r, w')"
  shows "r = None \<or> r = Some (Returned ()) \<or> r = Some (SystemExit 1)"
  using assms
  by (rule wait_loop_new_events [where P = "\<lambda>w evs r w'.
        r = None \<or> r = Some (Returned ()) \<or> r = Some (SystemExit 1)"]) simp_all

lemma loop_messages:
  assumes "wait_loop n cfg en started w = (r, w')"
  shows "warnings (new_events w w') = [] \<and>
         errors (new_events w w') =
           (if r = Some (SystemExit 1) then [Log logging_ERROR (translate cfg error_msg)] else [])"
  using assms
  by (rule wait_loop_new_events [where P = "\<lambda>w evs r w'.
        warnings evs = [] \<and>
        errors evs = (if r = Some (SystemExit 1)
                      then [Log logging_ERROR (translate cfg error_msg)] else [])"])
    simp_all

lemma loop_checks:
  assumes "wait_loop n cfg en started w = (r, w')"
  shows "checks w \<le> checks w' \<and>
         (\<forall>k. checks w \<le> k \<and> k < checks w' \<longrightarrow>
              (lock en k \<longleftrightarrow> \<not> (r = Some (Returned ()) \<and> Suc k = checks w'))) \<and>
         (r = Some (Returned ()) \<longrightarrow>
              checks w < checks w' \<and> new_events w w' \<noteq> [] \<and>
              last (new_events w w') = Exists pacman_db_lock False)"
  using assms
proof (rule wait_loop_new_events [where P = "\<lambda>w evs r w'.
        checks w \<le> checks w' \<and>
         (\<forall>k. checks w \<le> k \<and> k < checks w' \<longrightarrow>
              (lock en k \<longleftrightarrow> \<not> (r = Some (Returned ()) \<and> Suc k = checks w'))) \<and>
         (r = Some (Returned ()) \<longrightarrow>
              checks w < checks w' \<and> evs \<noteq> [] \<and> last evs = Exists pacman_db_lock False)"],
    goal_cases)
  case (1 w)
  show ?case by auto
next
  case (2 w)
  then show ?case by (auto simp: less_Suc_eq)
next
  case (3 w)
  then show ?case by (auto simp: next_round_def less_Suc_eq)
next
  case again: (4 w evs r w')
  have c: "checks (next_round en w) = Suc (checks w)"
    by (simp add: next_round_def)
  from again(4) have le: "Suc (checks w) \<le> checks w'"
    and all: "\<And>k. Suc (checks w) \<le> k \<Longrightarrow> k < checks w' \<Longrightarrow>
        (lock en k \<longleftrightarrow> \<not> (r = Some (Returned ()) \<and> Suc k = checks w'))"
    and ret: "r = Some (Returned ()) \<Longrightarrow>
        Suc (checks w) < checks w' \<and> evs \<noteq> [] \<and> last evs = Exists pacman_db_lock False"
    unfolding c by blast+
  have "lock en k \<longleftrightarrow> \<not> (r = Some (Returned ()) \<and> Suc k = checks w')"
    if "checks w \<le> k" "k < checks w'" for k
  proof (cases "k = checks w")
    case True
    with again(1) ret show ?thesis by auto
  next
    case False
    with that all [of k] show ?thesis by simp
  qed
  with le ret show ?case by auto
qed



lemma loop_paced:
  assumes "wait_loop n cfg en started w = (r, w')"
  shows "paced (filter (\<lambda>e. is_exists e \<or> is_sleep e) (new_events w w'))"
  using assms
  by (rule wait_loop_new_events [where P = "\<lambda>w evs r w'.
        paced (filter (\<lambda>e. is_exists e \<or> is_sleep e) evs)"])
    (simp_all add: round_events_def)




lemma wait_loop_more_fuel:
  assumes "wait_loop n cfg en started w = (Some r, w')"
  shows "wait_loop (n + m) cfg en started w = (Some r, w')"
  using assms
proof (induction n arbitrary: w)
  case 0
  then show ?case by simp
next
  case (Suc n)
  show ?case
  proof (cases "lock en (checks w)")
    case False
    with Suc.prems show ?thesis
      by (simp add: wait_loop_free del: wait_loop.simps)
  next
    case True
    show ?thesis
    proof (cases "clock en (reads w) - started > 600")
      case late: True
      with Suc.prems True show ?thesis
        by (simp add: wait_loop_timeout del: wait_loop.simps)
    next
      case False
      with Suc.prems True Suc.IH [of "next_round en w"] show ?thesis
        by (simp add: wait_loop_again del: wait_loop.simps)
    qed
  qed
qed

subsection \<open>From the loop to the call\<close>

lemma unit_outcome_roundtrip:
  "map_option (map_outcome (\<lambda>h. ())) (map_option (map_outcome (\<lambda>u. h)) r) = r"
  for r :: "unit outcome option" and h :: SysCommand
proof -
  have "map_outcome (\<lambda>h. ()) (map_outcome (\<lambda>u. h) a) = a"
    for a :: "unit outcome"
    by (cases a) simp_all
  then show ?thesis
    by (cases r) simp_all
qed

lemma loop_run:
  "wait_loop n cfg en (clock en (reads w)) (start_world cfg en w) =
     (map_option (map_outcome (\<lambda>h. ())) (result n cfg en args cmd w), final n cfg en args cmd w)"
  by (simp add: result_def final_def run_pacman_eq unit_outcome_roundtrip)

lemma result_eq:
  "result n cfg en args cmd w =
     map_option (map_outcome (\<lambda>u. SysCommand (cmd @ '' '' @ args)))
       (fst (wait_loop n cfg en (clock en (reads w)) (start_world cfg en w)))"
  by (simp add: result_def run_pacman_eq)

lemma result_cases:
  "result n cfg en args cmd w = None \<or>
   result n cfg en args cmd w = Some (Returned (SysCommand (cmd @ '' '' @ args))) \<or>
   result n cfg en args cmd w = Some (SystemExit 1)"
proof -
  obtain r w' where run: "wait_loop n cfg en (clock en (reads w)) (start_world cfg en w) = (r, w')"
    by (cases "wait_loop n cfg en (clock en (reads w)) (start_world cfg en w)")
  from loop_outcome [OF run] show ?thesis
    unfolding result_eq run by auto
qed


lemma result_unit:
  "map_option (map_outcome (\<lambda>h. ())) (result n cfg en args cmd w) = Some (Returned ())
     \<longleftrightarrow> result n cfg en args cmd w = Some (Returned (SysCommand (cmd @ '' '' @ args)))"
  "map_option (map_outcome (\<lambda>h. ())) (result n cfg en args cmd w) = Some (SystemExit 1)
     \<longleftrightarrow> result n cfg en args cmd w = Some (SystemExit 1)"
  using result_cases [of n cfg en args cmd w] by auto

lemma events_eq:
  "events n cfg en args cmd w =
     start_events cfg en w @ new_events (start_world cfg en w) (final n cfg en args cmd w)"
proof -
  let ?evs = "new_events (start_world cfg en w) (final n cfg en args cmd w)"
  have "trace (final n cfg en args cmd w) = trace (start_world cfg en w) @ ?evs"
    by (rule wait_loop_trace [OF loop_run])
  then have "trace (final n cfg en args cmd w) = trace w @ (start_events cfg en w @ ?evs)"
    by (simp add: start_world_def)
  then show ?thesis
    unfolding events_def by (rule new_events_append)
qed

lemma loop_events_eq:
  "loop_events (events n cfg en args cmd w) =
     new_events (start_world cfg en w) (final n cfg en args cmd w)"
proof -
  have "dropWhile (\<lambda>e. \<not> is_time e) (warn_events cfg @ rest) = dropWhile (\<lambda>e. \<not> is_time e) rest"
    for rest
    by (rule dropWhile_append2) (simp add: warn_events_no_time)
  then show ?thesis
    by (simp add: events_eq loop_events_def start_events_def)
qed

lemma start_world_counts [simp]:
  "checks (start_world cfg en w) = Suc (checks w)" "reads (start_world cfg en w) = Suc (reads w)"
  by (simp_all add: start_world_def)


lemma warnings_start_events:
  "warnings (start_events cfg en w) =
     (if lock en (checks w) then [Log logging_WARN (translate cfg warn_msg)] else [])"
  by (simp add: start_events_def)


lemma wait_loop_returns:
  assumes "\<forall>i<k. lock en (checks w + i)"
    and "\<forall>i<k. \<not> 600 < clock en (reads w + i) - started"
    and "\<not> lock en (checks w + k)" and "k < n"
  shows "fst (wait_loop n cfg en started w) = Some (Returned ())"
  using assms
proof (induction k arbitrary: w n)
  case 0
  then obtain m where "n = Suc m"
    by (cases n) auto
  with 0 show ?case
    by (simp add: wait_loop_free del: wait_loop.simps)
next
  case (Suc k)
  then obtain m where n: "n = Suc m" "k < m"
    by (cases n) auto
  from Suc.prems(1) [rule_format, of 0] Suc.prems(2) [rule_format, of 0]
  have l: "lock en (checks w)" and c: "\<not> 600 < clock en (reads w) - started"
    by simp_all
  have "fst (wait_loop m cfg en started (next_round en w)) = Some (Returned ())"
  proof (rule Suc.IH)
    show "\<forall>i<k. lock en (checks (next_round en w) + i)"
    proof (intro allI impI)
      fix i assume "i < k"
      with Suc.prems(1) [rule_format, of "Suc i"] show "lock en (checks (next_round en w) + i)"
        by (simp add: next_round_def)
    qed
    show "\<forall>i<k. \<not> 600 < clock en (reads (next_round en w) + i) - started"
    proof (intro allI impI)
      fix i assume "i < k"
      with Suc.prems(2) [rule_format, of "Suc i"]
      show "\<not> 600 < clock en (reads (next_round en w) + i) - started"
        by (simp add: next_round_def)
    qed
    show "\<not> lock en (checks (next_round en w) + k)"
      using Suc.prems(3) by (simp add: next_round_def)
    show "k < m" by (rule n(2))
  qed
  with l c n(1) show ?case
    by (simp add: wait_loop_again del: wait_loop.simps)
qed

lemma run_pacman_free:
  assumes "\<not> lock en (checks w)" and "\<not> lock en (Suc (checks w))"
  shows "run_pacman (Suc n) cfg en args cmd w =
     (Some (Returned (SysCommand (cmd @ '' '' @ args))),
      w\<lparr>checks := Suc (Suc (checks w)), reads := Suc (reads w),
        trace := trace w @ [Exists pacman_db_lock False, Time (clock en (reads w)),
                            Exists pacman_db_lock False]\<rparr>)"
proof -
  from assms(2) have "\<not> lock en (checks (start_world cfg en w))"
    by simp
  from wait_loop_free [OF this, of n cfg "clock en (reads w)"] assms(1) show ?thesis
    by (simp add: run_pacman_eq start_world_def start_events_def del: wait_loop.simps)
qed

lemma loop_round_first:
  assumes "lock en (checks w)" and "wait_loop (Suc n) cfg en started w = (r, w')"
  shows "\<exists>rest. new_events w w' = round_events en w @ rest"
proof (cases "600 < clock en (reads w) - started")
  case True
  with assms have "trace w' = trace w @ (round_events en w @ error_events cfg)"
    by (auto simp: wait_loop_timeout next_round_def simp del: wait_loop.simps)
  then show ?thesis
    by (auto dest: new_events_append)
next
  case False
  with assms have "wait_loop n cfg en started (next_round en w) = (r, w')"
    by (simp add: wait_loop_again del: wait_loop.simps)
  from wait_loop_trace [OF this]
  have "trace w' = trace w @ (round_events en w @ new_events (next_round en w) w')"
    by (simp add: next_round_def)
  then show ?thesis
    by (auto dest: new_events_append)
qed





lemma run_pacman_more_fuel:
  assumes "result n cfg en args cmd w = Some r"
  shows "run_pacman (n + m) cfg en args cmd w = run_pacman n cfg en args cmd w"
proof -
  obtain r0 w' where run: "wait_loop n cfg en (clock en (reads w)) (start_world cfg en w) = (r0, w')"
    by (cases "wait_loop n cfg en (clock en (reads w)) (start_world cfg en w)")
  with assms obtain u where "r0 = Some u"
    by (auto simp: result_eq)
  with run wait_loop_more_fuel [of n cfg en "clock en (reads w)" "start_world cfg en w" u w' m]
  show ?thesis
    by (simp add: run_pacman_eq)
qed

section \<open>The claims\<close>

text \<open>
  In what follows \<open>result n\<close> is what the call has come to after at most \<open>n\<close>
  evaluations of the loop condition (\<open>None\<close> while it is still waiting), \<open>final n\<close> the
  world it has reached and \<open>events n\<close> what it has done so far.  A statement for every \<open>n\<close>
  is a statement about every stage of every execution, the endless ones included.
\<close>

text \<open>
  Claim C1.  \<open>run_pacman\<close> never returns a handle while the lock file is present: when
  a handle is returned, the last thing the call did was an existence check of the lock
  path that found it absent.  Otherwise the call is still waiting or has ended the
  process with exit status 1, and every check of the loop so far found the lock file.
\<close>

theorem no_handle_while_locked:
  "(\<forall>h. result n cfg en args cmd w = Some (Returned h) \<longrightarrow>
        events n cfg en args cmd w \<noteq> [] \<and>
        last (events n cfg en args cmd w) = Exists pacman_db_lock False \<and>
        \<not> lock en (checks (final n cfg en args cmd w) - 1)) \<and>
   ((\<forall>h. result n cfg en args cmd w \<noteq> Some (Returned h)) \<longrightarrow>
        (result n cfg en args cmd w = None \<or> result n cfg en args cmd w = Some (SystemExit 1)) \<and>
        (\<forall>k. checks w < k \<and> k < checks (final n cfg en args cmd w) \<longrightarrow> lock en k))"
proof -
  let ?r = "result n cfg en args cmd w" and ?w' = "final n cfg en args cmd w"
  let ?loop = "new_events (start_world cfg en w) ?w'"
  note inv = loop_checks [OF loop_run [of n cfg en w args cmd], unfolded result_unit start_world_counts]
  have ret: "events n cfg en args cmd w \<noteq> [] \<and>
      last (events n cfg en args cmd w) = Exists pacman_db_lock False \<and>
      \<not> lock en (checks ?w' - 1)" if "?r = Some (Returned h)" for h
  proof -
    from that result_cases [of n cfg en args cmd w]
    have R: "?r = Some (Returned (SysCommand (cmd @ '' '' @ args)))"
      by auto
    with inv have lt: "Suc (checks w) < checks ?w'" and ne: "?loop \<noteq> []"
      and la: "last ?loop = Exists pacman_db_lock False"
      by blast+
    from inv R lt have "\<not> lock en (checks ?w' - 1)"
      by (auto dest!: spec [where x = "checks ?w' - 1"])
    with ne la show ?thesis
      by (simp add: events_eq)
  qed
  have wait: "(?r = None \<or> ?r = Some (SystemExit 1)) \<and>
      (\<forall>k. checks w < k \<and> k < checks ?w' \<longrightarrow> lock en k)"
    if "\<forall>h. ?r \<noteq> Some (Returned h)"
    using that result_cases [of n cfg en args cmd w] inv by auto
  from ret wait show ?thesis by blast
qed

theorem no_handle_while_locked_witness:
  "result 3 cfg_logfile env_brief ''update'' ''pacman'' init_world
     = Some (Returned (SysCommand ''pacman update'')) \<and>
   last (events 3 cfg_logfile env_brief ''update'' ''pacman'' init_world)
     = Exists pacman_db_lock False \<and>
   result 3 cfg_logfile env_stuck ''update'' ''pacman'' init_world = None"
proof -
  have r: "result 3 cfg_logfile env_brief ''update'' ''pacman'' init_world
      = Some (Returned (SysCommand ''pacman update''))"
    by code_simp
  have s: "result 3 cfg_logfile env_stuck ''update'' ''pacman'' init_world = None"
    by code_simp
  from no_handle_while_locked [of 3 cfg_logfile env_brief "''update''" "''pacman''" init_world] r s
  show ?thesis by blast
qed





text \<open>
  Claim C4, as the spec states it: if the lock file is absent at the first existence
  check, the call returns a handle without any sleep.  It fails when the lock file
  appears between the first check and the check of the loop: the call then sleeps before
  it returns.
\<close>

theorem immediate_path_counterexample:
  "\<not> lock env_late (checks init_world) \<and>
   filter is_sleep (events 2 cfg_plain env_late ''update'' ''pacman'' init_world) = [Sleep 0.25] \<and>
   result 2 cfg_plain env_late ''update'' ''pacman'' init_world
     = Some (Returned (SysCommand ''pacman update''))"
  by code_simp

text \<open>
  Claim C4, amended.  If the lock file is absent at the first existence check, no warning
  is emitted; if it is also absent at the check of the loop that follows, the call
  returns the handle at once: two checks and one clock reading are all it does, and it
  does not sleep.
\<close>

theorem immediate_path:
  assumes "\<not> lock en (checks w)"
  shows "warnings (events n cfg en args cmd w) = [] \<and>
    (\<not> lock en (Suc (checks w)) \<and> 0 < n \<longrightarrow>
       run_pacman n cfg en args cmd w =
         (Some (Returned (SysCommand (cmd @ '' '' @ args))),
          w\<lparr>checks := Suc (Suc (checks w)), reads := Suc (reads w),
            trace := trace w @ [Exists pacman_db_lock False, Time (clock en (reads w)),
                                Exists pacman_db_lock False]\<rparr>) \<and>
       filter is_sleep (events n cfg en args cmd w) = [])"
proof -
  have "warnings (new_events (start_world cfg en w) (final n cfg en args cmd w)) = []"
    using loop_messages [OF loop_run [of n cfg en w args cmd]] by blast
  with assms have w: "warnings (events n cfg en args cmd w) = []"
    by (simp add: events_eq warnings_start_events)
  have "run_pacman n cfg en args cmd w =
         (Some (Returned (SysCommand (cmd @ '' '' @ args))),
          w\<lparr>checks := Suc (Suc (checks w)), reads := Suc (reads w),
            trace := trace w @ [Exists pacman_db_lock False, Time (clock en (reads w)),
                                Exists pacman_db_lock False]\<rparr>) \<and>
       filter is_sleep (events n cfg en args cmd w) = []"
    if "\<not> lock en (Suc (checks w))" "0 < n"
  proof -
    from that(2) obtain m where n: "n = Suc m"
      by (cases n) auto
    note run = run_pacman_free [OF assms that(1), of m cfg args cmd]
    then have "events n cfg en args cmd w =
        [Exists pacman_db_lock False, Time (clock en (reads w)), Exists pacman_db_lock False]"
      by (simp add: n events_def final_def new_events_def)
    with run show ?thesis
      by (simp add: n)
  qed
  with w show ?thesis by blast
qed

theorem immediate_path_witness:
  "warnings (events 2 cfg_plain env_late ''update'' ''pacman'' init_world) = [] \<and>
   result 1 cfg_plain env_free ''update'' ''pacman'' init_world
     = Some (Returned (SysCommand ''pacman update'')) \<and>
   filter is_sleep (events 1 cfg_plain env_free ''update'' ''pacman'' init_world) = []"
proof -
  have a: "\<not> lock env_late (checks init_world)"
    by (simp add: env_late_def init_world_def)
  have b: "\<not> lock env_free (checks init_world)"
    by (simp add: env_free_def)
  have c: "\<not> lock env_free (Suc (checks init_world)) \<and> 0 < (1::nat)"
    by (simp add: env_free_def)
  note late = immediate_path [OF a, of 2 cfg_plain "''update''" "''pacman''", THEN conjunct1]
  note free = immediate_path [OF b, of 1 cfg_plain "''update''" "''pacman''", THEN conjunct2, THEN mp, OF c]
  from late free show ?thesis
    by (simp add: result_def)
qed

text \<open>
  Claim C5.  A handle that \<open>run_pacman\<close> returns is the \<open>SysCommand\<close> built from
  \<open>default_cmd\<close>, a space and \<open>args\<close>.  It is returned as soon as a check of the loop
  finds the lock file absent without the ceiling having been passed before; in particular
  \<^verbatim>\<open>run_pacman('update', 'pacman')\<close> with the lock file absent gives the handle of
  \<^verbatim>\<open>pacman update\<close>.
\<close>

theorem handle_contents:
  "(\<forall>h. result n cfg en args cmd w = Some (Returned h) \<longrightarrow>
        h = SysCommand (cmd @ '' '' @ args)) \<and>
   ((\<forall>i<k. lock en (Suc (checks w) + i)) \<and>
    (\<forall>i<k. \<not> 600 < clock en (Suc (reads w) + i) - clock en (reads w)) \<and>
    \<not> lock en (Suc (checks w) + k) \<and> k < n \<longrightarrow>
        result n cfg en args cmd w = Some (Returned (SysCommand (cmd @ '' '' @ args)))) \<and>
   (\<not> lock en (Suc (checks w)) \<and> 0 < n \<longrightarrow>
        result n cfg en ''update'' ''pacman'' w = Some (Returned (SysCommand ''pacman update'')))"
proof -
  have ret: "result n cfg en a c w = Some (Returned (SysCommand (c @ '' '' @ a)))"
    if "\<forall>i<j. lock en (Suc (checks w) + i)"
      and "\<forall>i<j. \<not> 600 < clock en (Suc (reads w) + i) - clock en (reads w)"
      and "\<not> lock en (Suc (checks w) + j)" and "j < n" for a c j
  proof -
    have "fst (wait_loop n cfg en (clock en (reads w)) (start_world cfg en w)) = Some (Returned ())"
      by (rule wait_loop_returns [where k = j]) (use that in simp_all)
    then show ?thesis
      by (simp add: result_eq)
  qed
  have "h = SysCommand (cmd @ '' '' @ args)" if "result n cfg en args cmd w = Some (Returned h)" for h
    using that result_cases [of n cfg en args cmd w] by auto
  moreover have "result n cfg en ''update'' ''pacman'' w = Some (Returned (SysCommand ''pacman update''))"
    if "\<not> lock en (Suc (checks w))" "0 < n"
    using ret [where j = 0 and c = "''pacman''" and a = "''update''"] that by simp
  ultimately show ?thesis
    using ret [where j = k and c = cmd and a = args] by blast
qed

theorem handle_contents_witness:
  "result 1 cfg_plain env_free ''update'' ''pacman'' init_world = Some (Returned (SysCommand ''pacman update'')) \<and>
   result 3 cfg_plain env_brief ''-Syu'' ''pacman'' init_world = Some (Returned (SysCommand ''pacman -Syu''))"
proof -
  have a: "\<not> lock env_free (Suc (checks init_world)) \<and> 0 < (1::nat)"
    by (simp add: env_free_def)
  have b: "(\<forall>i<1. lock env_brief (Suc (checks init_world) + i)) \<and>
    (\<forall>i<1. \<not> 600 < clock env_brief (Suc (reads init_world) + i) - clock env_brief (reads init_world)) \<and>
    \<not> lock env_brief (Suc (checks init_world) + 1) \<and> (1::nat) < 3"
    by (simp add: env_brief_def init_world_def)
  note first = handle_contents [of 1 cfg_plain env_free "''update''" "''pacman''" init_world 0,
      THEN conjunct2, THEN conjunct2, THEN mp, OF a]
  note second = handle_contents [of 3 cfg_plain env_brief "''-Syu''" "''pacman''" init_world 1,
      THEN conjunct2, THEN conjunct1, THEN mp, OF b]
  from first second show ?thesis
    by simp
qed

text \<open>
  Claim C6.  A call emits at most one warning.  It emits one exactly when its first
  existence check finds the lock file, directly after that check, and the loop emits
  none.
\<close>

theorem warning_once:
  "warnings (events n cfg en args cmd w) =
     (if lock en (checks w) then [Log logging_WARN (translate cfg warn_msg)] else []) \<and>
   length (warnings (events n cfg en args cmd w)) \<le> 1 \<and>
   (lock en (checks w) \<longrightarrow>
      take 2 (events n cfg en args cmd w) =
        [Exists pacman_db_lock True, Log logging_WARN (translate cfg warn_msg)]) \<and>
   warnings (loop_events (events n cfg en args cmd w)) = []"
proof -
  have loop: "warnings (new_events (start_world cfg en w) (final n cfg en args cmd w)) = []"
    using loop_messages [OF loop_run [of n cfg en w args cmd]] by blast
  obtain rest where "warn_events cfg = Log logging_WARN (translate cfg warn_msg) # rest"
    using hd_warn_events by blast
  then have "lock en (checks w) \<Longrightarrow> take 2 (events n cfg en args cmd w) =
        [Exists pacman_db_lock True, Log logging_WARN (translate cfg warn_msg)]"
    by (simp add: events_eq start_events_def)
  moreover have "warnings (events n cfg en args cmd w) =
     (if lock en (checks w) then [Log logging_WARN (translate cfg warn_msg)] else [])"
    by (simp add: events_eq warnings_start_events loop)
  moreover have "warnings (loop_events (events n cfg en args cmd w)) = []"
    by (simp add: loop_events_eq loop)
  ultimately show ?thesis
    by simp
qed

theorem warning_once_witness:
  "warnings (events 3 cfg_logfile env_brief ''update'' ''pacman'' init_world) =
     [Log logging_WARN warn_msg] \<and>
   take 2 (events 3 cfg_logfile env_brief ''update'' ''pacman'' init_world) =
     [Exists pacman_db_lock True, Log logging_WARN warn_msg]"
proof -
  have l: "lock env_brief (checks init_world)"
    by (simp add: env_brief_def init_world_def)
  have t: "translate cfg_logfile warn_msg = warn_msg"
    by (simp add: cfg_logfile_def)
  from warning_once [of 3 cfg_logfile env_brief "''update''" "''pacman''" init_world] l t
  show ?thesis by simp
qed

text \<open>
  Claim C7.  In the loop, checks and sleeps alternate: between two successive checks
  there is exactly one sleep, of 0.25 seconds.
\<close>

theorem poll_interval:
  "paced (filter (\<lambda>e. is_exists e \<or> is_sleep e) (loop_events (events n cfg en args cmd w)))"
  unfolding loop_events_eq by (rule loop_paced [OF loop_run])

theorem poll_interval_witness:
  "filter (\<lambda>e. is_exists e \<or> is_sleep e)
     (loop_events (events 3 cfg_logfile env_brief ''update'' ''pacman'' init_world)) =
     [Exists pacman_db_lock True, Sleep 0.25, Exists pacman_db_lock False] \<and>
   paced [Exists pacman_db_lock True, Sleep 0.25, Exists pacman_db_lock False]"
proof -
  have "filter (\<lambda>e. is_exists e \<or> is_sleep e)
     (loop_events (events 3 cfg_logfile env_brief ''update'' ''pacman'' init_world)) =
     [Exists pacman_db_lock True, Sleep 0.25, Exists pacman_db_lock False]"
    by code_simp
  with poll_interval [of 3 cfg_logfile env_brief "''update''" "''pacman''" init_world]
  show ?thesis by simp
qed




text \<open>
  Claim C9.  The command name plays no part in the gating: two calls that differ in
  \<open>default_cmd\<close> alone reach the same world through the same events and end the same
  way, up to the handle they return.
\<close>

theorem command_independent:
  "final n cfg en args c1 w = final n cfg en args c2 w \<and>
   map_option (map_outcome (\<lambda>h. ())) (result n cfg en args c1 w) =
   map_option (map_outcome (\<lambda>h. ())) (result n cfg en args c2 w) \<and>
   events n cfg en args c1 w = events n cfg en args c2 w"
proof -
  have "final n cfg en args c1 w = final n cfg en args c2 w"
    by (simp add: final_def run_pacman_eq)
  moreover have "map_option (map_outcome (\<lambda>h. ())) (result n cfg en args c1 w) =
      map_option (map_outcome (\<lambda>h. ())) (result n cfg en args c2 w)"
    by (simp add: result_eq unit_outcome_roundtrip)
  ultimately show ?thesis
    by (simp add: events_def)
qed

theorem command_independent_witness:
  "events 3 cfg_logfile env_brief ''-Syu'' ''pacman'' init_world =
     events 3 cfg_logfile env_brief ''-Syu'' ''yay'' init_world \<and>
   result 3 cfg_logfile env_brief ''-Syu'' ''pacman'' init_world
     = Some (Returned (SysCommand ''pacman -Syu'')) \<and>
   result 3 cfg_logfile env_brief ''-Syu'' ''yay'' init_world
     = Some (Returned (SysCommand ''yay -Syu''))"
proof -
  have "result 3 cfg_logfile env_brief ''-Syu'' ''pacman'' init_world
     = Some (Returned (SysCommand ''pacman -Syu''))"
    and "result 3 cfg_logfile env_brief ''-Syu'' ''yay'' init_world
     = Some (Returned (SysCommand ''yay -Syu''))"
    by code_simp+
  with command_independent [of 3 cfg_logfile env_brief "''-Syu''" "''pacman''" init_world "''yay''"]
  show ?thesis by simp
qed

text \<open>
  Claim C10.  The warning depends on the first existence check alone.  If the lock file
  is absent then and present at the check of the loop, the call enters the loop and
  sleeps without ever having warned, and when the next clock reading is past the ceiling
  it ends the process, still without a warning.
\<close>

theorem silent_wait:
  assumes "\<not> lock en (checks w)" and "lock en (Suc (checks w))" and "0 < n"
  shows "warnings (events n cfg en args cmd w) = [] \<and>
    Sleep 0.25 \<in> set (loop_events (events n cfg en args cmd w)) \<and>
    (600 < clock en (Suc (reads w)) - clock en (reads w) \<longrightarrow>
       result n cfg en args cmd w = Some (SystemExit 1))"
proof -
  from assms(3) obtain m where n: "n = Suc m"
    by (cases n) auto
  have "warnings (new_events (start_world cfg en w) (final n cfg en args cmd w)) = []"
    using loop_messages [OF loop_run [of n cfg en w args cmd]] by blast
  with assms(1) have w: "warnings (events n cfg en args cmd w) = []"
    by (simp add: events_eq warnings_start_events)
  from assms(2) have l: "lock en (checks (start_world cfg en w))"
    by simp
  from loop_round_first [OF l loop_run [of n cfg en w args cmd, unfolded n]]
  have s: "Sleep 0.25 \<in> set (loop_events (events n cfg en args cmd w))"
    by (auto simp: loop_events_eq n round_events_def)
  have "result n cfg en args cmd w = Some (SystemExit 1)"
    if "600 < clock en (Suc (reads w)) - clock en (reads w)"
  proof -
    from that have "600 < clock en (reads (start_world cfg en w)) - clock en (reads w)"
      by simp
    from wait_loop_timeout [OF l this, of m cfg] show ?thesis
      by (simp add: result_eq n del: wait_loop.simps)
  qed
  with w s show ?thesis by blast
qed

theorem silent_wait_witness:
  "warnings (events 1 cfg_logfile env_late_slow ''update'' ''pacman'' init_world) = [] \<and>
   Sleep 0.25 \<in> set (loop_events (events 1 cfg_logfile env_late_slow ''update'' ''pacman'' init_world)) \<and>
   result 1 cfg_logfile env_late_slow ''update'' ''pacman'' init_world = Some (SystemExit 1)"
proof -
  have a: "\<not> lock env_late_slow (checks init_world)"
    and b: "lock env_late_slow (Suc (checks init_world))"
    and c: "600 < clock env_late_slow (Suc (reads init_world)) - clock env_late_slow (reads init_world)"
    by (simp_all add: env_late_slow_def init_world_def)
  from silent_wait [OF a b, of 1 cfg_logfile "''update''" "''pacman''"] c show ?thesis
    by simp
qed

end
